theory Spec2Isabelle
  imports Main "HOL-Library.Sublist" "HOL-Library.AList"
begin

section \<open>The site table \<open>pages\<close> and the constants of \<open>login.js\<close>\<close>

text \<open>
  The table \<open>pages\<close> of \<open>login.js\<close> (lines 85 to 100), one constant per entry, and
  the three constants declared at the head of the retry loops.
\<close>

definition pages_login_url :: string where
  \<open>pages_login_url = ''https://activ.rfs.nsw.gov.au/webapp/loginu''\<close>

definition pages_login_username :: string where
  \<open>pages_login_username = ''#input28''\<close>

definition pages_login_password :: string where
  \<open>pages_login_password = ''#input60''\<close>

definition pages_login_nextButton :: string where
  \<open>pages_login_nextButton = ''input.button.button-primary[type="submit"][value="Next"]''\<close>

definition pages_login_verifyButton :: string where
  \<open>pages_login_verifyButton = ''input.button.button-primary[type="submit"][value="Verify"]''\<close>

definition pages_login_rememberMe :: string where
  \<open>pages_login_rememberMe = ''label[for="input36"]''\<close>

definition pages_webapp_url :: string where
  \<open>pages_webapp_url = ''https://activ.rfs.nsw.gov.au/webapp''\<close>

definition pages_dashboard_url :: string where
  \<open>pages_dashboard_url = ''https://activ.rfs.nsw.gov.au/webapp/dashboard''\<close>

definition maxLoginAttempts :: nat where
  "maxLoginAttempts = 5"

definition maxNavigationAttempts :: nat where
  "maxNavigationAttempts = 5"

definition retryDelay :: nat where
  "retryDelay = 5000"

text \<open>The credentials \<open>process.env.USERNAME\<close> and \<open>process.env.PASSWORD\<close>.\<close>

record credentials =
  USERNAME :: string
  PASSWORD :: string

section \<open>The browser as an environment\<close>

text \<open>
  Every call the script makes on the browser, the console or the timers is an event. The
  script is sequential (each call is awaited), so a run is the list of its events in
  program order.
\<close>

datatype error =
    PuppeteerError
  | Error string
  | TypeError
  | IOError
  | SyntaxError

datatype event =
    Launch
  | NewPage
  | KeyPress string
  | ListPages
  | ClosePage
  | Goto string string
  | Query string
  | WaitForSelector string nat
  | Focus string
  | TypeText string string
  | ElementClick string
  | Click string
  | WaitForNavigation string
  | Evaluate string
  | Sleep nat
  | SetInterval nat
  | Log string
  | ConsoleError string "error option"

text \<open>
  The browser is outside the program. Its answers are given by an environment that may
  depend on everything that happened before (the history \<open>h\<close>): whether an awaited call
  resolves or rejects, whether \<open>page.$(selector)\<close> finds an element, what \<open>page.url()\<close>
  returns and how many tabs \<open>browser.pages()\<close> lists. Quantifying over all environments
  covers every behaviour of the site.
\<close>

record browser =
  resolves :: "event list \<Rightarrow> event \<Rightarrow> bool"
  element :: "event list \<Rightarrow> string \<Rightarrow> bool"
  url :: "event list \<Rightarrow> string"
  openPages :: "event list \<Rightarrow> nat"

text \<open>\<open>String.prototype.includes\<close>: the argument occurs as a contiguous substring.\<close>

definition str_includes :: "string \<Rightarrow> string \<Rightarrow> bool" where
  "str_includes s sub = sublist sub s"

text \<open>Decimal rendering of a number inside a template literal.\<close>

fun show_nat :: "nat \<Rightarrow> string" where
  "show_nat n =
     (if n < 10 then [''0123456789'' ! n]
      else show_nat (n div 10) @ [''0123456789'' ! (n mod 10)])"

declare show_nat.simps [simp del]

text \<open>
  \<open>await page.$(selector)\<close>: \<open>None\<close> when the call rejects, otherwise whether an element
  handle (\<open>True\<close>) or \<open>null\<close> (\<open>False\<close>) came back.
\<close>

definition query :: "browser \<Rightarrow> string \<Rightarrow> event list \<Rightarrow> bool option \<times> event list" where
  "query b sel h =
     (if resolves b h (Query sel) then Some (element b h sel) else None, h @ [Query sel])"

text \<open>
  A straight-line piece of the script is a list of steps: an awaited call, a \<open>_log\<close>
  line, or the guarded click
  \<open>const e = await page.$(sel); if (e) await e.click();\<close>.
  A step yields \<open>False\<close> when it throws; the steps after it are then not run.
\<close>

datatype step =
    Await event
  | Print string
  | ClickIfPresent string

fun run_step :: "browser \<Rightarrow> step \<Rightarrow> event list \<Rightarrow> bool \<times> event list" where
  "run_step b (Await e) h = (resolves b h e, h @ [e])"
| "run_step b (Print m) h = (True, h @ [Log m])"
| "run_step b (ClickIfPresent sel) h =
     (case query b sel h of
        (None, h1) \<Rightarrow> (False, h1)
      | (Some False, h1) \<Rightarrow> (True, h1)
      | (Some True, h1) \<Rightarrow> (resolves b h1 (ElementClick sel), h1 @ [ElementClick sel]))"

fun run_steps :: "browser \<Rightarrow> step list \<Rightarrow> event list \<Rightarrow> bool \<times> event list" where
  "run_steps b [] h = (True, h)"
| "run_steps b (s # ss) h =
     (case run_step b s h of
        (False, h1) \<Rightarrow> (False, h1)
      | (True, h1) \<Rightarrow> run_steps b ss h1)"

section \<open>The login attempt\<close>

text \<open>
  \<open>isloggedInPage\<close> of the TypeScript port, which is also the condition written inline
  at line 187 of \<open>login.js\<close>.
\<close>

definition isloggedInPage :: "string \<Rightarrow> bool" where
  "isloggedInPage u = (str_includes u pages_dashboard_url \<or> str_includes u pages_webapp_url)"

text \<open>Lines 158 to 184 of \<open>login.js\<close>: the form flow, from the first log line to the
  wait for navigation.\<close>

definition form_flow :: "credentials \<Rightarrow> step list" where
  "form_flow c =
     [Print ''Login form detected. Logging in...'',
      Await (WaitForSelector pages_login_username 10000),
      Await (Focus pages_login_username),
      Await (TypeText pages_login_username (USERNAME c)),
      Print ''Username entered.'',
      ClickIfPresent pages_login_rememberMe,
      Print ''Remember Me clicked.'',
      Await (WaitForSelector pages_login_nextButton 5000),
      Await (Click pages_login_nextButton),
      Await (WaitForSelector pages_login_password 10000),
      Print ''Next clicked.'',
      Await (TypeText pages_login_password (PASSWORD c)),
      Await (WaitForSelector pages_login_verifyButton 5000),
      Await (Click pages_login_verifyButton),
      Print ''Password entered and attempting login.'',
      Await (WaitForNavigation ''domcontentloaded'')]"

text \<open>The same flow in the TypeScript port (lines 110 to 125): no \<open>focus\<close> call and
  fewer log lines.\<close>

definition form_flow_ts :: "credentials \<Rightarrow> step list" where
  "form_flow_ts c =
     [Print ''Login form detected. Logging in...'',
      Await (WaitForSelector pages_login_username 10000),
      Await (TypeText pages_login_username (USERNAME c)),
      ClickIfPresent pages_login_rememberMe,
      Await (WaitForSelector pages_login_nextButton 5000),
      Await (Click pages_login_nextButton),
      Await (WaitForSelector pages_login_password 10000),
      Await (TypeText pages_login_password (PASSWORD c)),
      Await (WaitForSelector pages_login_verifyButton 5000),
      Await (Click pages_login_verifyButton),
      Await (WaitForNavigation ''domcontentloaded'')]"

text \<open>
  How the body of a \<open>try\<close> block inside a loop ends: by \<open>break\<close>, by running to its
  end, or by an exception.
\<close>

datatype ending = Break | Completed | Thrown

text \<open>The \<open>try\<close> block of the login loop, lines 153 to 195 of \<open>login.js\<close>.\<close>

definition login_try :: "browser \<Rightarrow> credentials \<Rightarrow> event list \<Rightarrow> ending \<times> event list" where
  "login_try b c h =
     (case run_step b (Await (Goto pages_login_url ''networkidle2'')) h of
        (False, h1) \<Rightarrow> (Thrown, h1)
      | (True, h1) \<Rightarrow>
          (case query b pages_login_username h1 of
             (None, h2) \<Rightarrow> (Thrown, h2)
           | (Some True, h2) \<Rightarrow>
               (case run_steps b (form_flow c) h2 of
                  (False, h3) \<Rightarrow> (Thrown, h3)
                | (True, h3) \<Rightarrow>
                    if str_includes (url b h3) pages_dashboard_url
                       \<or> str_includes (url b h3) pages_webapp_url
                    then (Break, h3 @ [Log ''Login successful!''])
                    else (Completed, h3 @ [Log ''Login failed. Retrying...'']))
           | (Some False, h2) \<Rightarrow>
               (Completed, h2 @ [Log ''Login form not detected. Retrying...''])))"

text \<open>The \<open>try\<close> block of the login loop in the TypeScript port, lines 107 to 140.\<close>

definition login_try_ts :: "browser \<Rightarrow> credentials \<Rightarrow> event list \<Rightarrow> ending \<times> event list" where
  "login_try_ts b c h =
     (case run_step b (Await (Goto pages_login_url ''networkidle2'')) h of
        (False, h1) \<Rightarrow> (Thrown, h1)
      | (True, h1) \<Rightarrow>
          (case query b pages_login_username h1 of
             (None, h2) \<Rightarrow> (Thrown, h2)
           | (Some True, h2) \<Rightarrow>
               (case run_steps b (form_flow_ts c) h2 of
                  (False, h3) \<Rightarrow> (Thrown, h3)
                | (True, h3) \<Rightarrow>
                    if isloggedInPage (url b h3)
                    then (Break, h3 @ [Log ''Login successful!''])
                    else (Completed, h3 @ [Log ''Login failed. Retrying...'']))
           | (Some False, h2) \<Rightarrow>
               if isloggedInPage (url b h2)
               then (Break, h2 @ [Log ''Login successful!''])
               else (Completed, h2 @ [Log ''Login form not detected. Retrying...''])))"

text \<open>
  One pass of the loop body up to the delay: the \<open>try\<close> block and its \<open>catch\<close>, which
  only logs. The result says whether the loop was left by \<open>break\<close>.
\<close>

definition login_attempt :: "browser \<Rightarrow> credentials \<Rightarrow> nat \<Rightarrow> event list \<Rightarrow> bool \<times> event list" where
  "login_attempt b c loginAttempts h =
     (case login_try b c h of
        (Break, h1) \<Rightarrow> (True, h1)
      | (Completed, h1) \<Rightarrow> (False, h1)
      | (Thrown, h1) \<Rightarrow>
          (False, h1 @ [Log (''Login attempt '' @ show_nat (loginAttempts + 1)
                             @ '' failed. Retrying in '' @ show_nat (retryDelay div 1000)
                             @ '' seconds...'')]))"

definition login_attempt_ts :: "browser \<Rightarrow> credentials \<Rightarrow> nat \<Rightarrow> event list \<Rightarrow> bool \<times> event list" where
  "login_attempt_ts b c loginAttempts h =
     (case login_try_ts b c h of
        (Break, h1) \<Rightarrow> (True, h1)
      | (Completed, h1) \<Rightarrow> (False, h1)
      | (Thrown, h1) \<Rightarrow>
          (False, h1 @ [Log (''Login attempt '' @ show_nat (loginAttempts + 1)
                             @ '' failed. Retrying in '' @ show_nat (retryDelay div 1000)
                             @ '' seconds...'')]))"

section \<open>The dashboard attempt\<close>

text \<open>The \<open>try\<close> block of the navigation loop, lines 212 to 223, and its \<open>catch\<close>.\<close>

definition navigation_try :: "browser \<Rightarrow> event list \<Rightarrow> ending \<times> event list" where
  "navigation_try b h =
     (case run_steps b [Print ''Navigating to dashboard...'',
                        Await (Goto pages_dashboard_url ''networkidle0'')] h of
        (False, h1) \<Rightarrow> (Thrown, h1)
      | (True, h1) \<Rightarrow>
          if str_includes (url b h1) pages_dashboard_url
          then (Break, h1 @ [Log ''Dashboard loaded.''])
          else (Completed, h1 @ [Log ''Navigation to dashboard failed. Retrying...'']))"

definition navigation_attempt :: "browser \<Rightarrow> nat \<Rightarrow> event list \<Rightarrow> bool \<times> event list" where
  "navigation_attempt b navigationAttempts h =
     (case navigation_try b h of
        (Break, h1) \<Rightarrow> (True, h1)
      | (Completed, h1) \<Rightarrow> (False, h1)
      | (Thrown, h1) \<Rightarrow>
          (False, h1 @ [Log (''Navigation attempt '' @ show_nat (navigationAttempts + 1)
                             @ '' failed. Retrying in '' @ show_nat (retryDelay div 1000)
                             @ '' seconds...'')]))"

section \<open>The retry loops and the driver\<close>

text \<open>
  Both \<open>while\<close> loops have one shape (lines 151 to 201 and 211 to 229):
  \<^verbatim>\<open>while (attempts < max) { try { ... break ... } catch { log }  await delay;  attempts++; }\<close>
  The loop returns the final value of the counter with the history. The delay and the
  increment are skipped only by \<open>break\<close>.
\<close>

function retry_loop ::
  "(nat \<Rightarrow> event list \<Rightarrow> bool \<times> event list) \<Rightarrow> nat \<Rightarrow> nat \<Rightarrow> event list \<Rightarrow> nat \<times> event list"
where
  "retry_loop attempt maxAttempts attempts h =
     (if attempts < maxAttempts then
        (case attempt attempts h of
           (True, h1) \<Rightarrow> (attempts, h1)
         | (False, h1) \<Rightarrow> retry_loop attempt maxAttempts (attempts + 1) (h1 @ [Sleep retryDelay]))
      else (attempts, h))"
  by pat_completeness auto
termination
  by (relation "measure (\<lambda>(attempt, maxAttempts, attempts, h). maxAttempts - attempts)") auto

declare retry_loop.simps [simp del]

text \<open>A loop followed by its exhaustion check (lines 203 to 205 and 231 to 233).\<close>

definition login_phase :: "browser \<Rightarrow> credentials \<Rightarrow> nat \<Rightarrow> event list \<Rightarrow> error option \<times> event list" where
  "login_phase b c maxAttempts h =
     (case retry_loop (login_attempt b c) maxAttempts 0 h of
        (loginAttempts, h1) \<Rightarrow>
          if loginAttempts = maxAttempts
          then (Some (Error ''Max login attempts reached. Unable to login.''), h1)
          else (None, h1))"

definition login_phase_ts :: "browser \<Rightarrow> credentials \<Rightarrow> nat \<Rightarrow> event list \<Rightarrow> error option \<times> event list" where
  "login_phase_ts b c maxAttempts h =
     (case retry_loop (login_attempt_ts b c) maxAttempts 0 h of
        (loginAttempts, h1) \<Rightarrow>
          if loginAttempts = maxAttempts
          then (Some (Error ''Max login attempts reached. Unable to login.''), h1)
          else (None, h1))"

definition navigation_phase :: "browser \<Rightarrow> nat \<Rightarrow> event list \<Rightarrow> error option \<times> event list" where
  "navigation_phase b maxAttempts h =
     (case retry_loop (navigation_attempt b) maxAttempts 0 h of
        (navigationAttempts, h1) \<Rightarrow>
          if navigationAttempts = maxAttempts
          then (Some (Error ''Max navigation attempts reached. Unable to navigate to dashboard.''), h1)
          else (None, h1))"

text \<open>Lines 130 to 144: launching the browser and closing the blank tab.\<close>

definition startup :: "browser \<Rightarrow> event list \<Rightarrow> bool \<times> event list" where
  "startup b h =
     (case run_steps b [Await Launch, Await NewPage, Await (KeyPress ''F11''), Await ListPages] h of
        (False, h1) \<Rightarrow> (False, h1)
      | (True, h1) \<Rightarrow>
          if openPages b h1 > 1 then run_step b (Await ClosePage) h1 else (True, h1))"

text \<open>
  The outer \<open>try\<close> block of \<open>loginToRFSActiv\<close> (lines 129 to 243), with the two bounds as
  parameters: the error it throws, if any, and the history.
\<close>

definition loginToRFSActiv_try ::
  "browser \<Rightarrow> credentials \<Rightarrow> nat \<Rightarrow> nat \<Rightarrow> event list \<Rightarrow> error option \<times> event list"
where
  "loginToRFSActiv_try b c maxLogin maxNavigation h =
     (case startup b h of
        (False, h1) \<Rightarrow> (Some PuppeteerError, h1)
      | (True, h1) \<Rightarrow>
          (case login_phase b c maxLogin h1 of
             (Some e, h2) \<Rightarrow> (Some e, h2)
           | (None, h2) \<Rightarrow>
               (case navigation_phase b maxNavigation h2 of
                  (Some e, h3) \<Rightarrow> (Some e, h3)
                | (None, h3) \<Rightarrow>
                    (case run_step b (Await (Evaluate ''document.body.style.zoom = 1.3'')) h3 of
                       (False, h4) \<Rightarrow> (Some PuppeteerError, h4)
                     | (True, h4) \<Rightarrow> (None, h4 @ [SetInterval (3600000 * 6)])))))"

text \<open>
  \<open>loginToRFSActiv\<close> with its outer \<open>catch\<close> (lines 244 to 246), which logs the error
  with \<open>console.error\<close> and lets the function return. The first component is the error
  the caller receives.
\<close>

definition loginToRFSActiv_with ::
  "browser \<Rightarrow> credentials \<Rightarrow> nat \<Rightarrow> nat \<Rightarrow> event list \<Rightarrow> error option \<times> event list"
where
  "loginToRFSActiv_with b c maxLogin maxNavigation h =
     (case loginToRFSActiv_try b c maxLogin maxNavigation h of
        (Some e, h1) \<Rightarrow> (None, h1 @ [ConsoleError ''Error during login:'' (Some e)])
      | (None, h1) \<Rightarrow> (None, h1))"

definition loginToRFSActiv :: "browser \<Rightarrow> credentials \<Rightarrow> event list \<Rightarrow> error option \<times> event list" where
  "loginToRFSActiv b c h = loginToRFSActiv_with b c maxLoginAttempts maxNavigationAttempts h"

section \<open>The preferences patch\<close>

text \<open>
  A JSON value, with the type of its numbers left open. An object is the list of its
  properties as \<open>JSON.parse\<close> keeps them; only lookups by key are used below, so the
  order of the keys plays no role. In a document on disk a number is the literal as it
  is written in the file.
\<close>

datatype 'n json =
    JNull
  | JBool bool
  | JNum 'n
  | JStr string
  | JArr "'n json list"
  | JObj "(string \<times> 'n json) list"

type_synonym document = "string json"

text \<open>
  \<open>JSON.parse\<close> turns a number literal into an IEEE double, and \<open>JSON.stringify\<close>
  prints the double, which need not give the literal back. The script looks at a number
  in two ways only: whether it is falsy (zero), and what \<open>JSON.stringify\<close> prints for
  it (\<open>None\<close> when it prints \<open>null\<close>, as it does for an infinity). A number at run
  time is this pair. What the pair is for a given literal is decided by the JavaScript
  runtime, not by the script, and is a parameter of the model.
\<close>

type_synonym number = "bool \<times> string option"

type_synonym jsvalue = "number json"



primrec JSON_stringify :: "jsvalue \<Rightarrow> document" where
  "JSON_stringify JNull = JNull"
| "JSON_stringify (JBool v) = JBool v"
| "JSON_stringify (JNum n) = (case snd n of None \<Rightarrow> JNull | Some lit \<Rightarrow> JNum lit)"
| "JSON_stringify (JStr s) = JStr s"
| "JSON_stringify (JArr xs) = JArr (map JSON_stringify xs)"
| "JSON_stringify (JObj kvs) = JObj (map (map_prod id JSON_stringify) kvs)"

text \<open>The number \<open>0\<close> written in the script: falsy, printed as \<open>0\<close>.\<close>

definition zero :: number where
  "zero = (True, Some ''0'')"




text \<open>JavaScript truthiness of a parsed value, for \<open>preferences.session || {}\<close>.\<close>

fun truthy :: "jsvalue \<Rightarrow> bool" where
  "truthy JNull = False"
| "truthy (JBool v) = v"
| "truthy (JNum n) = (\<not> fst n)"
| "truthy (JStr s) = (s \<noteq> [])"
| "truthy (JArr xs) = True"
| "truthy (JObj kvs) = True"

text \<open>
  The own enumerable properties that the spread \<open>{...v}\<close> copies; \<open>None\<close> is
  \<open>undefined\<close>. An array and a string contribute their indices, the other primitives
  nothing.
\<close>

fun spread :: "'n json option \<Rightarrow> (string \<times> 'n json) list" where
  "spread None = []"
| "spread (Some JNull) = []"
| "spread (Some (JBool v)) = []"
| "spread (Some (JNum n)) = []"
| "spread (Some (JStr s)) = zip (map show_nat [0..<length s]) (map (\<lambda>ch. JStr [ch]) s)"
| "spread (Some (JArr xs)) = zip (map show_nat [0..<length xs]) xs"
| "spread (Some (JObj kvs)) = kvs"


text \<open>
  The assignment \<open>target.k = v\<close>, as \<open>JSON.stringify\<close> sees the target afterwards.
  \<open>login.js\<close> is a CommonJS script without \<open>use strict\<close>: assigning to a property of a
  primitive does nothing, a named property put on an array is not serialised, and only
  \<open>null\<close> throws.
\<close>

fun assign :: "jsvalue \<Rightarrow> string \<Rightarrow> jsvalue \<Rightarrow> error + jsvalue" where
  "assign (JObj kvs) k v = Inr (JObj (AList.update k v kvs))"
| "assign JNull k v = Inl TypeError"
| "assign target k v = Inr target"

text \<open>
  Lines 64 to 75 on the parsed value \<open>preferences\<close>, giving the value that line 78
  serialises. For an object it is the patch itself. \<open>null\<close> throws at
  \<open>preferences.profile\<close>. On any other primitive the assignments of lines 64 to 73 do
  nothing, \<open>preferences.session\<close> is still \<open>undefined\<close> and line 74 throws. On an array
  the properties are set but not serialised.
\<close>

fun patch :: "jsvalue \<Rightarrow> error + jsvalue" where
  "patch (JObj kvs) =
     (let profile = JObj (AList.update ''password_manager_enabled'' (JBool False)
                         (AList.update ''password_manager_leak_detection'' (JBool False)
                            (spread (map_of kvs ''profile''))));
          kvs1 = AList.update ''profile'' profile kvs;
          kvs2 = AList.update ''credentials_enable_service'' (JBool False) kvs1;
          kvs3 = AList.update ''credentials_enable_autosignin'' (JBool False) kvs2;
          session = (case map_of kvs3 ''session'' of
                       None \<Rightarrow> JObj []
                     | Some s \<Rightarrow> if truthy s then s else JObj [])
      in case assign session ''restore_on_startup'' (JNum zero) of
           Inl e \<Rightarrow> Inl e
         | Inr session1 \<Rightarrow>
             (case assign session1 ''restore_on_startup_urls'' (JArr []) of
                Inl e \<Rightarrow> Inl e
              | Inr session2 \<Rightarrow> Inr (JObj (AList.update ''session'' session2 kvs3))))"
| "patch (JArr xs) = Inr (JArr xs)"
| "patch JNull = Inl TypeError"
| "patch (JBool v) = Inl TypeError"
| "patch (JNum n) = Inl TypeError"
| "patch (JStr s) = Inl TypeError"



section \<open>Observations on a run\<close>

definition goes_to :: "string \<Rightarrow> event \<Rightarrow> bool" where
  "goes_to u e = (case e of Goto v w \<Rightarrow> v = u | _ \<Rightarrow> False)"

definition is_Sleep :: "event \<Rightarrow> bool" where
  "is_Sleep e = (case e of Sleep n \<Rightarrow> True | _ \<Rightarrow> False)"

text \<open>The events a step can produce.\<close>

fun step_events :: "step \<Rightarrow> event list" where
  "step_events (Await e) = [e]"
| "step_events (Print m) = [Log m]"
| "step_events (ClickIfPresent sel) = [Query sel, ElementClick sel]"

text \<open>
  The interactions with the login form: waiting for a selector, typing, clicking and
  waiting for the navigation.
\<close>

fun is_interaction :: "event \<Rightarrow> bool" where
  "is_interaction (WaitForSelector sel t) = True"
| "is_interaction (TypeText sel txt) = True"
| "is_interaction (ElementClick sel) = True"
| "is_interaction (Click sel) = True"
| "is_interaction (WaitForNavigation w) = True"
| "is_interaction e = False"

text \<open>A step that is a single call or log line, without a guard.\<close>

fun plain :: "step \<Rightarrow> bool" where
  "plain (Await e) = True"
| "plain (Print m) = True"
| "plain (ClickIfPresent sel) = False"

text \<open>
  The order of the form interactions as the specification lists it, with the click on
  the remember-me control present or not.
\<close>

definition spec_login_order :: "credentials \<Rightarrow> bool \<Rightarrow> event list" where
  "spec_login_order c remember =
     [WaitForSelector pages_login_username 10000,
      TypeText pages_login_username (USERNAME c)]
     @ (if remember then [ElementClick pages_login_rememberMe] else [])
     @ [WaitForSelector pages_login_nextButton 5000,
        Click pages_login_nextButton,
        WaitForSelector pages_login_password 10000,
        TypeText pages_login_password (PASSWORD c),
        WaitForSelector pages_login_verifyButton 5000,
        Click pages_login_verifyButton,
        WaitForNavigation ''domcontentloaded'']"

text \<open>
  The events of a complete run of the form flow, lines 158 to 184 of \<open>login.js\<close>, and
  of the flow of the TypeScript port; \<open>remember\<close> says whether the remember-me control
  was found.
\<close>

definition form_flow_events :: "credentials \<Rightarrow> bool \<Rightarrow> event list" where
  "form_flow_events c remember =
     [Log ''Login form detected. Logging in...'',
      WaitForSelector pages_login_username 10000,
      Focus pages_login_username,
      TypeText pages_login_username (USERNAME c),
      Log ''Username entered.'',
      Query pages_login_rememberMe]
     @ (if remember then [ElementClick pages_login_rememberMe] else [])
     @ [Log ''Remember Me clicked.'',
        WaitForSelector pages_login_nextButton 5000,
        Click pages_login_nextButton,
        WaitForSelector pages_login_password 10000,
        Log ''Next clicked.'',
        TypeText pages_login_password (PASSWORD c),
        WaitForSelector pages_login_verifyButton 5000,
        Click pages_login_verifyButton,
        Log ''Password entered and attempting login.'',
        WaitForNavigation ''domcontentloaded'']"

definition form_flow_ts_events :: "credentials \<Rightarrow> bool \<Rightarrow> event list" where
  "form_flow_ts_events c remember =
     [Log ''Login form detected. Logging in...'',
      WaitForSelector pages_login_username 10000,
      TypeText pages_login_username (USERNAME c),
      Query pages_login_rememberMe]
     @ (if remember then [ElementClick pages_login_rememberMe] else [])
     @ [WaitForSelector pages_login_nextButton 5000,
        Click pages_login_nextButton,
        WaitForSelector pages_login_password 10000,
        TypeText pages_login_password (PASSWORD c),
        WaitForSelector pages_login_verifyButton 5000,
        Click pages_login_verifyButton,
        WaitForNavigation ''domcontentloaded'']"

text \<open>
  The history at line 167 of an attempt that started at \<open>h\<close>: the point where
  \<open>page.$\<close> looks for the remember-me control.
\<close>

definition at_remember_me :: "credentials \<Rightarrow> event list \<Rightarrow> event list" where
  "at_remember_me c h =
     h @ [Goto pages_login_url ''networkidle2'',
          Query pages_login_username,
          Log ''Login form detected. Logging in...'',
          WaitForSelector pages_login_username 10000,
          Focus pages_login_username,
          TypeText pages_login_username (USERNAME c),
          Log ''Username entered.'']"

text \<open>
  Two property lookups agree outside a set of keys; and the keys the patch is meant to
  set, at the top level of the document, inside \<open>profile\<close> and inside \<open>session\<close>.
\<close>

definition agree_except :: "string set \<Rightarrow> (string \<Rightarrow> 'a) \<Rightarrow> (string \<Rightarrow> 'a) \<Rightarrow> bool" where
  "agree_except ks f g = (\<forall>k. k \<notin> ks \<longrightarrow> f k = g k)"






section \<open>Sample environments\<close>

definition station1 :: credentials where
  "station1 = \<lparr>USERNAME = ''station1'', PASSWORD = ''pw1''\<rparr>"

text \<open>A profile that is already signed in: no login form, and the site shows the
  dashboard.\<close>

definition already_signed_in :: browser where
  "already_signed_in =
     \<lparr>resolves = (\<lambda>h e. True),
      element = (\<lambda>h sel. False),
      url = (\<lambda>h. pages_dashboard_url),
      openPages = (\<lambda>h. 1)\<rparr>"

text \<open>The login form is shown, but the Next button never becomes visible.\<close>

definition next_never_visible :: browser where
  "next_never_visible =
     \<lparr>resolves = (\<lambda>h e. e \<noteq> WaitForSelector pages_login_nextButton 5000),
      element = (\<lambda>h sel. sel = pages_login_username),
      url = (\<lambda>h. pages_login_url),
      openPages = (\<lambda>h. 2)\<rparr>"

text \<open>The login form without a remember-me control; every call resolves and the site
  answers the form by showing the login page again.\<close>

definition back_to_login :: browser where
  "back_to_login =
     \<lparr>resolves = (\<lambda>h e. True),
      element = (\<lambda>h sel. sel = pages_login_username),
      url = (\<lambda>h. pages_login_url),
      openPages = (\<lambda>h. 1)\<rparr>"









text \<open>What the patch writes when it starts from the empty object.\<close>

definition patched_empty :: document where
  "patched_empty =
     JObj [(''profile'', JObj [(''password_manager_leak_detection'', JBool False),
                               (''password_manager_enabled'', JBool False)]),
           (''credentials_enable_service'', JBool False),
           (''credentials_enable_autosignin'', JBool False),
           (''session'', JObj [(''restore_on_startup'', JNum ''0''),
                               (''restore_on_startup_urls'', JArr [])])]"

text \<open>Every call resolves, every element exists, and the site answers the form with an
  error page outside the application.\<close>

definition lands_elsewhere :: browser where
  "lands_elsewhere =
     \<lparr>resolves = (\<lambda>h e. True),
      element = (\<lambda>h sel. True),
      url = (\<lambda>h. ''https://activ.rfs.nsw.gov.au/signin/error''),
      openPages = (\<lambda>h. 1)\<rparr>"

section \<open>Traces of steps and attempts\<close>

text \<open>A step only appends to the history, and only events of its own.\<close>

lemma run_step_events:
  "\<exists>es. snd (run_step b s h) = h @ es \<and> set es \<subseteq> set (step_events s)"
  by (cases s) (auto simp: query_def split: option.splits bool.splits)

lemma run_steps_events:
  "\<exists>es. snd (run_steps b ss h) = h @ es \<and> set es \<subseteq> set (concat (map step_events ss))"
proof (induction ss arbitrary: h)
  case Nil
  show ?case by simp
next
  case (Cons s ss)
  obtain ok h1 where r: "run_step b s h = (ok, h1)" by (cases "run_step b s h")
  from run_step_events [of b s h] r obtain es1
    where e1: "h1 = h @ es1" "set es1 \<subseteq> set (step_events s)" by auto
  show ?case
  proof (cases ok)
    case False
    with r e1 show ?thesis by auto
  next
    case True
    from Cons.IH [of h1] obtain es2
      where e2: "snd (run_steps b ss h1) = h1 @ es2"
        "set es2 \<subseteq> set (concat (map step_events ss))" by auto
    have "snd (run_steps b (s # ss) h) = h @ (es1 @ es2)"
      using r True e1 e2 by simp
    moreover have "set (es1 @ es2) \<subseteq> set (concat (map step_events (s # ss)))"
      using e1 e2 by auto
    ultimately show ?thesis by blast
  qed
qed

lemma filter_empty_subset:
  "set es \<subseteq> set fs \<Longrightarrow> filter P fs = [] \<Longrightarrow> filter P es = []"
  by (auto simp: filter_empty_conv)

lemma form_flow_quiet:
  "filter (goes_to u) (concat (map step_events (form_flow c))) = []"
  "filter is_Sleep (concat (map step_events (form_flow c))) = []"
  by (simp_all add: form_flow_def goes_to_def is_Sleep_def)

lemma login_try_shape:
  "\<exists>es. snd (login_try b c h) = h @ Goto pages_login_url ''networkidle2'' # es
        \<and> filter (goes_to u) es = [] \<and> filter is_Sleep es = []"
proof -
  let ?h1 = "h @ [Goto pages_login_url ''networkidle2'']"
  let ?h2 = "?h1 @ [Query pages_login_username]"
  from run_steps_events [of b "form_flow c" ?h2] obtain es
    where es: "snd (run_steps b (form_flow c) ?h2) = ?h2 @ es"
      "set es \<subseteq> set (concat (map step_events (form_flow c)))" by auto
  have q: "filter (goes_to u) es = []" "filter is_Sleep es = []"
    using es(2) form_flow_quiet filter_empty_subset by blast+
  obtain ok h3 where r: "run_steps b (form_flow c) ?h2 = (ok, h3)"
    by (cases "run_steps b (form_flow c) ?h2")
  with es have h3: "h3 = ?h2 @ es" by simp
  show ?thesis
    using r h3 q
    by (auto simp: login_try_def query_def goes_to_def is_Sleep_def split: bool.splits)
qed

lemma login_attempt_shape:
  "\<exists>es. snd (login_attempt b c k h) = h @ Goto pages_login_url ''networkidle2'' # es
        \<and> filter (goes_to u) es = [] \<and> filter is_Sleep es = []"
proof -
  from login_try_shape [of b c h u] obtain es
    where es: "snd (login_try b c h) = h @ Goto pages_login_url ''networkidle2'' # es"
      "filter (goes_to u) es = []" "filter is_Sleep es = []" by blast
  obtain r h1 where r: "login_try b c h = (r, h1)" by (cases "login_try b c h")
  show ?thesis
    using r es by (cases r) (auto simp: login_attempt_def goes_to_def is_Sleep_def)
qed

lemma navigation_attempt_shape:
  "\<exists>es. snd (navigation_attempt b k h) =
          h @ Log ''Navigating to dashboard...'' # Goto pages_dashboard_url ''networkidle0'' # es
        \<and> filter (goes_to u) es = [] \<and> filter is_Sleep es = []"
  by (auto simp: navigation_attempt_def navigation_try_def goes_to_def is_Sleep_def
      split: bool.splits)

lemma retry_loop_all_fail:
  "(\<And>k h. \<not> fst (att k h)) \<Longrightarrow> k \<le> N \<Longrightarrow> fst (retry_loop att N k h) = N"
proof (induction att N k h rule: retry_loop.induct)
  case (1 att N k h)
  show ?case
  proof (cases "k < N")
    case False
    with "1.prems" show ?thesis by (simp add: retry_loop.simps)
  next
    case True
    obtain ok h1 where r: "att k h = (ok, h1)" by (cases "att k h")
    from "1.prems"(1) [of k h] r have nok: "\<not> ok" by simp
    from "1.IH" [OF True r [symmetric]] nok "1.prems"(1) True
    have "fst (retry_loop att N (k + 1) (h1 @ [Sleep retryDelay])) = N" by simp
    with True r nok show ?thesis by (simp add: retry_loop.simps [of att N k h])
  qed
qed

lemma retry_loop_trace:
  "(\<And>k h. \<exists>es. snd (att k h) = h @ es \<and> length (filter P es) = 1 \<and> filter is_Sleep es = [])
   \<Longrightarrow> (\<And>n. \<not> P (Sleep n)) \<Longrightarrow> k \<le> N \<Longrightarrow>
         \<exists>es. snd (retry_loop att N k h) = h @ es
            \<and> k \<le> fst (retry_loop att N k h) \<and> fst (retry_loop att N k h) \<le> N
            \<and> filter is_Sleep es = replicate (fst (retry_loop att N k h) - k) (Sleep retryDelay)
            \<and> length (filter P es) =
                (if fst (retry_loop att N k h) = N then N - k
                 else fst (retry_loop att N k h) - k + 1)"
proof (induction att N k h rule: retry_loop.induct)
  case (1 att N k h)
  note shape = "1.prems"(1) and nP = "1.prems"(2)
  show ?case
  proof (cases "k < N")
    case False
    with "1.prems" show ?thesis by (simp add: retry_loop.simps)
  next
    case True
    obtain ok h1 where r: "att k h = (ok, h1)" by (cases "att k h")
    from shape [of k h] r obtain es1
      where es1: "h1 = h @ es1" "length (filter P es1) = 1" "filter is_Sleep es1 = []" by auto
    show ?thesis
    proof (cases ok)
      case True
      with \<open>k < N\<close> r es1 show ?thesis by (simp add: retry_loop.simps [of att N k h])
    next
      case False
      let ?h2 = "h1 @ [Sleep retryDelay]"
      let ?k' = "fst (retry_loop att N (k + 1) ?h2)"
      have "\<exists>es. snd (retry_loop att N (k + 1) ?h2) = ?h2 @ es
            \<and> k + 1 \<le> ?k' \<and> ?k' \<le> N
            \<and> filter is_Sleep es = replicate (?k' - (k + 1)) (Sleep retryDelay)
            \<and> length (filter P es) = (if ?k' = N then N - (k + 1) else ?k' - (k + 1) + 1)"
        using "1.IH" [OF True r [symmetric]] False shape nP True by simp
      then obtain es2
        where es2: "snd (retry_loop att N (k + 1) ?h2) = ?h2 @ es2"
          "k + 1 \<le> ?k'" "?k' \<le> N"
          "filter is_Sleep es2 = replicate (?k' - (k + 1)) (Sleep retryDelay)"
          "length (filter P es2) = (if ?k' = N then N - (k + 1) else ?k' - (k + 1) + 1)"
        by blast
      have eq: "retry_loop att N k h = retry_loop att N (k + 1) ?h2"
        using True r False by (simp add: retry_loop.simps [of att N k h])
      have "snd (retry_loop att N k h) = h @ (es1 @ Sleep retryDelay # es2)"
        using eq es2(1) es1(1) by simp
      moreover have "filter is_Sleep (es1 @ Sleep retryDelay # es2)
                      = replicate (?k' - k) (Sleep retryDelay)"
      proof -
        have "?k' - k = Suc (?k' - (k + 1))" using es2(2) by simp
        then show ?thesis using es1(3) es2(4) by (simp add: is_Sleep_def)
      qed
      moreover have "length (filter P (es1 @ Sleep retryDelay # es2))
                      = (if ?k' = N then N - k else ?k' - k + 1)"
        using es1(2) es2(2,3,5) nP True by auto
      ultimately show ?thesis using eq es2(2,3) by auto
    qed
  qed
qed

lemma retry_loop_success:
  "fst (retry_loop att N k h) \<noteq> N \<Longrightarrow> k \<le> N \<Longrightarrow>
     \<exists>h0. fst (att (fst (retry_loop att N k h)) h0)
        \<and> snd (retry_loop att N k h) = snd (att (fst (retry_loop att N k h)) h0)"
proof (induction att N k h rule: retry_loop.induct)
  case (1 att N k h)
  show ?case
  proof (cases "k < N")
    case False
    with "1.prems" show ?thesis by (simp add: retry_loop.simps)
  next
    case True
    obtain ok h1 where r: "att k h = (ok, h1)" by (cases "att k h")
    show ?thesis
    proof (cases ok)
      case True
      with \<open>k < N\<close> r have "retry_loop att N k h = (k, h1)"
        by (simp add: retry_loop.simps [of att N k h])
      with r True show ?thesis by (intro exI [of _ h]) simp
    next
      case False
      have eq: "retry_loop att N k h = retry_loop att N (k + 1) (h1 @ [Sleep retryDelay])"
        using True r False by (simp add: retry_loop.simps [of att N k h])
      from "1.IH" [OF True r [symmetric]] False True "1.prems" eq
      show ?thesis by simp
    qed
  qed
qed


lemma retry_loop_quiet:
  "(\<And>k h. \<exists>es. snd (att k h) = h @ es \<and> filter Q es = [])
   \<Longrightarrow> (\<And>n. \<not> Q (Sleep n))
   \<Longrightarrow> \<exists>es. snd (retry_loop att N k h) = h @ es \<and> filter Q es = []"
proof (induction att N k h rule: retry_loop.induct)
  case (1 att N k h)
  note shape = "1.prems"(1) and nQ = "1.prems"(2)
  show ?case
  proof (cases "k < N")
    case False
    then show ?thesis by (simp add: retry_loop.simps)
  next
    case True
    obtain ok h1 where r: "att k h = (ok, h1)" by (cases "att k h")
    from shape [of k h] r obtain es1
      where es1: "h1 = h @ es1" "filter Q es1 = []" by auto
    show ?thesis
    proof (cases ok)
      case True
      with \<open>k < N\<close> r es1 show ?thesis by (simp add: retry_loop.simps [of att N k h])
    next
      case False
      let ?h2 = "h1 @ [Sleep retryDelay]"
      have "\<exists>es. snd (retry_loop att N (k + 1) ?h2) = ?h2 @ es \<and> filter Q es = []"
        using "1.IH" [OF True r [symmetric]] False shape nQ by simp
      then obtain es2
        where es2: "snd (retry_loop att N (k + 1) ?h2) = ?h2 @ es2" "filter Q es2 = []"
        by blast
      have eq: "retry_loop att N k h = retry_loop att N (k + 1) ?h2"
        using True r False by (simp add: retry_loop.simps [of att N k h])
      have "snd (retry_loop att N k h) = h @ (es1 @ Sleep retryDelay # es2)"
        using eq es2(1) es1(1) by simp
      moreover have "filter Q (es1 @ Sleep retryDelay # es2) = []"
        using es1(2) es2(2) nQ by simp
      ultimately show ?thesis by blast
    qed
  qed
qed

lemma urls_differ: "pages_login_url \<noteq> pages_dashboard_url"
  by (simp add: pages_login_url_def pages_dashboard_url_def)

lemma login_attempt_counts:
  "\<exists>es. snd (login_attempt b c k h) = h @ es
      \<and> length (filter (goes_to pages_login_url) es) = 1 \<and> filter is_Sleep es = []"
  using login_attempt_shape [of b c k h pages_login_url]
  by (auto simp: goes_to_def is_Sleep_def)

lemma login_attempt_no_dashboard:
  "\<exists>es. snd (login_attempt b c k h) = h @ es \<and> filter (goes_to pages_dashboard_url) es = []"
  using login_attempt_shape [of b c k h pages_dashboard_url] urls_differ
  by (auto simp: goes_to_def)

lemma navigation_attempt_counts:
  "\<exists>es. snd (navigation_attempt b k h) = h @ es
      \<and> length (filter (goes_to pages_dashboard_url) es) = 1 \<and> filter is_Sleep es = []"
  using navigation_attempt_shape [of b k h pages_dashboard_url]
  by (auto simp: goes_to_def is_Sleep_def)

text \<open>A loop that ends with its counter at the bound has made that many attempts, each
  followed by the delay.\<close>

lemma login_loop_at_bound:
  assumes k: "fst (retry_loop (login_attempt b c) N 0 h) = N"
  shows "\<exists>es. retry_loop (login_attempt b c) N 0 h = (N, h @ es)
      \<and> length (filter (goes_to pages_login_url) es) = N
      \<and> filter is_Sleep es = replicate N (Sleep retryDelay)
      \<and> filter (goes_to pages_dashboard_url) es = []"
proof -
  let ?r = "retry_loop (login_attempt b c) N 0 h"
  from retry_loop_trace [of "login_attempt b c" "goes_to pages_login_url" 0 N h]
    login_attempt_counts k
  obtain es where es: "snd ?r = h @ es" "length (filter (goes_to pages_login_url) es) = N"
    "filter is_Sleep es = replicate N (Sleep retryDelay)"
    by (auto simp: goes_to_def)
  from retry_loop_quiet [of "login_attempt b c" "goes_to pages_dashboard_url" N 0 h]
    login_attempt_no_dashboard
  obtain es' where es': "snd ?r = h @ es'" "filter (goes_to pages_dashboard_url) es' = []"
    by (auto simp: goes_to_def)
  from es(1) es'(1) have "es' = es" by simp
  with es es' k show ?thesis by (intro exI [of _ es]) (simp add: prod_eq_iff)
qed

lemma navigation_loop_at_bound:
  assumes k: "fst (retry_loop (navigation_attempt b) N 0 h) = N"
  shows "\<exists>es. retry_loop (navigation_attempt b) N 0 h = (N, h @ es)
      \<and> length (filter (goes_to pages_dashboard_url) es) = N
      \<and> filter is_Sleep es = replicate N (Sleep retryDelay)"
proof -
  let ?r = "retry_loop (navigation_attempt b) N 0 h"
  from retry_loop_trace [of "navigation_attempt b" "goes_to pages_dashboard_url" 0 N h]
    navigation_attempt_counts k
  obtain es where es: "snd ?r = h @ es" "length (filter (goes_to pages_dashboard_url) es) = N"
    "filter is_Sleep es = replicate N (Sleep retryDelay)"
    by (auto simp: goes_to_def)
  with k show ?thesis by (intro exI [of _ es]) (simp add: prod_eq_iff)
qed

lemma login_phase_exhausted:
  "fst (login_phase b c N h) \<noteq> None \<longleftrightarrow> fst (retry_loop (login_attempt b c) N 0 h) = N"
  by (simp add: login_phase_def split: prod.splits)

lemma navigation_phase_exhausted:
  "fst (navigation_phase b N h) \<noteq> None \<longleftrightarrow> fst (retry_loop (navigation_attempt b) N 0 h) = N"
  by (simp add: navigation_phase_def split: prod.splits)

lemma login_loop_exhausted:
  assumes "\<And>k h. \<not> fst (login_attempt b c k h)"
  shows "\<exists>es. retry_loop (login_attempt b c) N 0 h = (N, h @ es)
      \<and> length (filter (goes_to pages_login_url) es) = N
      \<and> filter is_Sleep es = replicate N (Sleep retryDelay)
      \<and> filter (goes_to pages_dashboard_url) es = []"
  using login_loop_at_bound [of b c N h]
    retry_loop_all_fail [of "login_attempt b c" 0 N h] assms by simp

lemma navigation_loop_exhausted:
  assumes "\<And>k h. \<not> fst (navigation_attempt b k h)"
  shows "\<exists>es. retry_loop (navigation_attempt b) N 0 h = (N, h @ es)
      \<and> length (filter (goes_to pages_dashboard_url) es) = N
      \<and> filter is_Sleep es = replicate N (Sleep retryDelay)"
  using navigation_loop_at_bound [of b N h]
    retry_loop_all_fail [of "navigation_attempt b" 0 N h] assms by simp



lemma selectors_differ:
  "pages_login_username \<noteq> pages_login_nextButton"
  "pages_login_rememberMe \<noteq> pages_login_username"
  by (simp_all add: pages_login_username_def pages_login_nextButton_def
      pages_login_rememberMe_def)

lemma login_url_not_dashboard: "\<not> str_includes pages_login_url pages_dashboard_url"
  by (simp add: str_includes_def pages_login_url_def pages_dashboard_url_def sublist_code(3))

lemma next_never_visible_login:
  "login_attempt next_never_visible c k h =
     (False, h @ [Goto pages_login_url ''networkidle2'',
                  Query pages_login_username,
                  Log ''Login form detected. Logging in...'',
                  WaitForSelector pages_login_username 10000,
                  Focus pages_login_username,
                  TypeText pages_login_username (USERNAME c),
                  Log ''Username entered.'',
                  Query pages_login_rememberMe,
                  Log ''Remember Me clicked.'',
                  WaitForSelector pages_login_nextButton 5000,
                  Log (''Login attempt '' @ show_nat (k + 1) @ '' failed. Retrying in ''
                       @ show_nat (retryDelay div 1000) @ '' seconds...'')])"
  by (simp add: login_attempt_def login_try_def form_flow_def query_def
      next_never_visible_def selectors_differ)

lemma next_never_visible_navigation:
  "navigation_attempt next_never_visible k h =
     (False, h @ [Log ''Navigating to dashboard...'',
                  Goto pages_dashboard_url ''networkidle0'',
                  Log ''Navigation to dashboard failed. Retrying...''])"
  by (simp add: navigation_attempt_def navigation_try_def next_never_visible_def
      login_url_not_dashboard)




section \<open>Exhausting the attempts\<close>




section \<open>Retry delays\<close>

lemma login_attempt_break:
  "fst (login_attempt b c k h) \<Longrightarrow> last (snd (login_attempt b c k h)) = Log ''Login successful!''"
  by (auto simp: login_attempt_def login_try_def query_def
      split: prod.splits ending.splits bool.splits option.splits if_splits)

lemma navigation_attempt_break:
  "fst (navigation_attempt b k h) \<Longrightarrow> last (snd (navigation_attempt b k h)) = Log ''Dashboard loaded.''"
  by (auto simp: navigation_attempt_def navigation_try_def
      split: prod.splits ending.splits bool.splits if_splits)

lemma retry_loop_broken:
  assumes shape: "\<And>k h. \<exists>es. snd (att k h) = h @ es \<and> length (filter P es) = 1
                      \<and> filter is_Sleep es = []"
    and nP: "\<And>n. \<not> P (Sleep n)"
    and brk: "\<And>k h. fst (att k h) \<Longrightarrow> last (snd (att k h)) = e"
    and ne: "fst (retry_loop att N 0 h) \<noteq> N"
  shows "\<exists>es. snd (retry_loop att N 0 h) = h @ es
      \<and> 1 \<le> length (filter P es)
      \<and> filter is_Sleep es = replicate (length (filter P es) - 1) (Sleep retryDelay)
      \<and> last es = e"
proof -
  let ?r = "retry_loop att N 0 h"
  from retry_loop_trace [of att P 0 N h] shape nP ne
  obtain es where es: "snd ?r = h @ es" "length (filter P es) = fst ?r + 1"
    "filter is_Sleep es = replicate (fst ?r) (Sleep retryDelay)"
    by auto
  from retry_loop_success [of att N 0 h] ne obtain h0
    where h0: "fst (att (fst ?r) h0)" "snd ?r = snd (att (fst ?r) h0)" by auto
  from brk [OF h0(1)] h0(2) have "last (snd ?r) = e" by simp
  moreover from es(2) have "es \<noteq> []" by auto
  ultimately have "last es = e" using es(1) by simp
  with es show ?thesis by (intro exI [of _ es]) simp
qed

lemma back_to_login_login:
  "login_attempt back_to_login c k h =
     (True, h @ [Goto pages_login_url ''networkidle2'',
                 Query pages_login_username,
                 Log ''Login form detected. Logging in...'',
                 WaitForSelector pages_login_username 10000,
                 Focus pages_login_username,
                 TypeText pages_login_username (USERNAME c),
                 Log ''Username entered.'',
                 Query pages_login_rememberMe,
                 Log ''Remember Me clicked.'',
                 WaitForSelector pages_login_nextButton 5000,
                 Click pages_login_nextButton,
                 WaitForSelector pages_login_password 10000,
                 Log ''Next clicked.'',
                 TypeText pages_login_password (PASSWORD c),
                 WaitForSelector pages_login_verifyButton 5000,
                 Click pages_login_verifyButton,
                 Log ''Password entered and attempting login.'',
                 WaitForNavigation ''domcontentloaded'',
                 Log ''Login successful!''])"
  by (simp add: login_attempt_def login_try_def form_flow_def query_def
      back_to_login_def selectors_differ str_includes_def pages_login_url_def
      pages_webapp_url_def)

lemma already_signed_in_navigation:
  "navigation_attempt already_signed_in k h =
     (True, h @ [Log ''Navigating to dashboard...'',
                 Goto pages_dashboard_url ''networkidle0'',
                 Log ''Dashboard loaded.''])"
  by (simp add: navigation_attempt_def navigation_try_def already_signed_in_def
      str_includes_def)

text \<open>
  C3, as written: a phase whose every attempt fails with \<open>maxAttempts = N\<close> waits
  \<open>N - 1\<close> times, so three attempts yield two delays. With the Next button never
  visible and a bound of three, the login phase waits three times before it raises the
  exhaustion error: the delay of line 199 also follows the last failed attempt.
\<close>

theorem three_attempts_three_delays:
  "fst (login_phase next_never_visible station1 3 [])
     = Some (Error ''Max login attempts reached. Unable to login.'')
   \<and> length (filter (goes_to pages_login_url)
        (snd (login_phase next_never_visible station1 3 []))) = 3
   \<and> filter is_Sleep (snd (login_phase next_never_visible station1 3 []))
       = [Sleep 5000, Sleep 5000, Sleep 5000]"
  by (simp add: login_phase_def retry_loop.simps next_never_visible_login
      is_Sleep_def goes_to_def retryDelay_def)

text \<open>
  C3, amended: the fixed \<open>retryDelay\<close> wait follows every failed attempt, the last one
  included, and nothing else. A phase whose every attempt fails with \<open>maxAttempts = N\<close>,
  and any phase that ends in exhaustion, waits exactly \<open>N\<close> times before the exhaustion
  error is raised (three attempts yield three delays). A phase that succeeds waits once
  less than it made attempts, and its run ends with the log line of the successful
  attempt: no delay follows it.
\<close>

theorem delay_after_every_failed_attempt:
  "((\<forall>k h. \<not> fst (login_attempt b c k h)) \<longrightarrow>
      (\<exists>es. snd (login_phase b c N h) = h @ es
           \<and> filter is_Sleep es = replicate N (Sleep retryDelay)))
   \<and> ((\<forall>k h. \<not> fst (navigation_attempt b k h)) \<longrightarrow>
      (\<exists>es. snd (navigation_phase b N h) = h @ es
           \<and> filter is_Sleep es = replicate N (Sleep retryDelay)))
   \<and> (fst (login_phase b c N h) \<noteq> None \<longrightarrow>
      (\<exists>es. snd (login_phase b c N h) = h @ es
           \<and> filter is_Sleep es = replicate N (Sleep retryDelay)))
   \<and> (fst (navigation_phase b N h) \<noteq> None \<longrightarrow>
      (\<exists>es. snd (navigation_phase b N h) = h @ es
           \<and> filter is_Sleep es = replicate N (Sleep retryDelay)))
   \<and> (fst (login_phase b c N h) = None \<longrightarrow>
      (\<exists>es. snd (login_phase b c N h) = h @ es
           \<and> 1 \<le> length (filter (goes_to pages_login_url) es)
           \<and> filter is_Sleep es
               = replicate (length (filter (goes_to pages_login_url) es) - 1) (Sleep retryDelay)
           \<and> last es = Log ''Login successful!''))
   \<and> (fst (navigation_phase b N h) = None \<longrightarrow>
      (\<exists>es. snd (navigation_phase b N h) = h @ es
           \<and> 1 \<le> length (filter (goes_to pages_dashboard_url) es)
           \<and> filter is_Sleep es
               = replicate (length (filter (goes_to pages_dashboard_url) es) - 1) (Sleep retryDelay)
           \<and> last es = Log ''Dashboard loaded.''))"
proof (intro conjI impI)
  assume "\<forall>k h. \<not> fst (login_attempt b c k h)"
  then show "\<exists>es. snd (login_phase b c N h) = h @ es
           \<and> filter is_Sleep es = replicate N (Sleep retryDelay)"
    using login_loop_exhausted [of b c N h] by (auto simp: login_phase_def)
next
  assume "\<forall>k h. \<not> fst (navigation_attempt b k h)"
  then show "\<exists>es. snd (navigation_phase b N h) = h @ es
           \<and> filter is_Sleep es = replicate N (Sleep retryDelay)"
    using navigation_loop_exhausted [of b N h] by (auto simp: navigation_phase_def)
next
  assume "fst (login_phase b c N h) \<noteq> None"
  then show "\<exists>es. snd (login_phase b c N h) = h @ es
           \<and> filter is_Sleep es = replicate N (Sleep retryDelay)"
    using login_loop_at_bound [of b c N h] login_phase_exhausted [of b c N h]
    by (auto simp: login_phase_def)
next
  assume "fst (navigation_phase b N h) \<noteq> None"
  then show "\<exists>es. snd (navigation_phase b N h) = h @ es
           \<and> filter is_Sleep es = replicate N (Sleep retryDelay)"
    using navigation_loop_at_bound [of b N h] navigation_phase_exhausted [of b N h]
    by (auto simp: navigation_phase_def)
next
  assume ok: "fst (login_phase b c N h) = None"
  then have ne: "fst (retry_loop (login_attempt b c) N 0 h) \<noteq> N"
    by (auto simp: login_phase_def split: prod.splits if_splits)
  have "snd (login_phase b c N h) = snd (retry_loop (login_attempt b c) N 0 h)"
    by (simp add: login_phase_def split: prod.splits)
  with retry_loop_broken [of "login_attempt b c" "goes_to pages_login_url"
      "Log ''Login successful!''" N h, OF login_attempt_counts _ login_attempt_break ne]
  show "\<exists>es. snd (login_phase b c N h) = h @ es
           \<and> 1 \<le> length (filter (goes_to pages_login_url) es)
           \<and> filter is_Sleep es
               = replicate (length (filter (goes_to pages_login_url) es) - 1) (Sleep retryDelay)
           \<and> last es = Log ''Login successful!''"
    by (simp add: goes_to_def)
next
  assume ok: "fst (navigation_phase b N h) = None"
  then have ne: "fst (retry_loop (navigation_attempt b) N 0 h) \<noteq> N"
    by (auto simp: navigation_phase_def split: prod.splits if_splits)
  have "snd (navigation_phase b N h) = snd (retry_loop (navigation_attempt b) N 0 h)"
    by (simp add: navigation_phase_def split: prod.splits)
  with retry_loop_broken [of "navigation_attempt b" "goes_to pages_dashboard_url"
      "Log ''Dashboard loaded.''" N h, OF navigation_attempt_counts _ navigation_attempt_break ne]
  show "\<exists>es. snd (navigation_phase b N h) = h @ es
           \<and> 1 \<le> length (filter (goes_to pages_dashboard_url) es)
           \<and> filter is_Sleep es
               = replicate (length (filter (goes_to pages_dashboard_url) es) - 1) (Sleep retryDelay)
           \<and> last es = Log ''Dashboard loaded.''"
    by (simp add: goes_to_def)
qed

theorem delay_after_every_failed_attempt_witness:
  "(\<forall>k h. \<not> fst (login_attempt next_never_visible station1 k h))
   \<and> (\<forall>k h. \<not> fst (navigation_attempt next_never_visible k h))
   \<and> fst (login_phase next_never_visible station1 3 []) \<noteq> None
   \<and> fst (navigation_phase next_never_visible 3 []) \<noteq> None
   \<and> fst (login_phase back_to_login station1 3 []) = None
   \<and> fst (navigation_phase already_signed_in 3 []) = None
   \<and> filter is_Sleep (snd (login_phase next_never_visible station1 3 []))
       = replicate 3 (Sleep retryDelay)
   \<and> filter is_Sleep (snd (navigation_phase next_never_visible 3 []))
       = replicate 3 (Sleep retryDelay)
   \<and> filter is_Sleep (snd (login_phase back_to_login station1 3 [])) = []
   \<and> last (snd (login_phase back_to_login station1 3 [])) = Log ''Login successful!''
   \<and> filter is_Sleep (snd (navigation_phase already_signed_in 3 [])) = []
   \<and> last (snd (navigation_phase already_signed_in 3 [])) = Log ''Dashboard loaded.''"
  using delay_after_every_failed_attempt [of next_never_visible station1 3 "[]"]
    delay_after_every_failed_attempt [of back_to_login station1 3 "[]"]
    delay_after_every_failed_attempt [of already_signed_in station1 3 "[]"]
  by (simp add: next_never_visible_login next_never_visible_navigation
      login_phase_def navigation_phase_def retry_loop.simps [of _ 3]
      back_to_login_login already_signed_in_navigation is_Sleep_def goes_to_def)


section \<open>A session that is already signed in\<close>

lemma already_signed_in_login:
  "login_attempt already_signed_in c k h =
     (False, h @ [Goto pages_login_url ''networkidle2'',
                  Query pages_login_username,
                  Log ''Login form not detected. Retrying...''])"
  by (simp add: login_attempt_def login_try_def query_def already_signed_in_def)

lemma already_signed_in_login_ts:
  "login_attempt_ts already_signed_in c k h =
     (True, h @ [Goto pages_login_url ''networkidle2'',
                 Query pages_login_username,
                 Log ''Login successful!''])"
  by (simp add: login_attempt_ts_def login_try_ts_def query_def already_signed_in_def
      isloggedInPage_def str_includes_def)

lemma already_signed_in_startup:
  "startup already_signed_in [] = (True, [Launch, NewPage, KeyPress ''F11'', ListPages])"
  by (simp add: startup_def already_signed_in_def)

text \<open>
  The TypeScript port does what C1 says: when the first navigation shows no username
  field and the URL passes \<open>isloggedInPage\<close>, the login phase ends after one navigation
  and one query, without touching the form.
\<close>

lemma login_phase_ts_signed_in:
  assumes "resolves b h (Goto pages_login_url ''networkidle2'')"
    and "query b pages_login_username (h @ [Goto pages_login_url ''networkidle2''])
           = (Some False, h2)"
    and "isloggedInPage (url b h2)"
    and "0 < N"
  shows "login_phase_ts b c N h =
           (None, h @ [Goto pages_login_url ''networkidle2'',
                       Query pages_login_username,
                       Log ''Login successful!''])"
  using assms
  by (auto simp: login_phase_ts_def retry_loop.simps [of _ N 0] login_attempt_ts_def
      login_try_ts_def query_def split: if_splits)

text \<open>
  C1 in \<open>login.js\<close>: the profile is already signed in, so the login URL shows no
  username field and the page URL is the dashboard URL, which \<open>isloggedInPage\<close>
  accepts. The \<open>else\<close> branch of line 193 only logs that the form was not detected:
  each of the five attempts fails without any form interaction, the phase raises the
  exhaustion error and the dashboard is never opened. The TypeScript port, on the same
  input, succeeds after one attempt.
\<close>

theorem signed_in_session_exhausts_login:
  "isloggedInPage (url already_signed_in
        [Goto pages_login_url ''networkidle2'', Query pages_login_username])
   \<and> \<not> element already_signed_in [Goto pages_login_url ''networkidle2'']
         pages_login_username
   \<and> login_attempt already_signed_in station1 0 []
       = (False, [Goto pages_login_url ''networkidle2'',
                  Query pages_login_username,
                  Log ''Login form not detected. Retrying...''])
   \<and> fst (login_phase already_signed_in station1 maxLoginAttempts [])
       = Some (Error ''Max login attempts reached. Unable to login.'')
   \<and> length (filter (goes_to pages_login_url)
         (snd (login_phase already_signed_in station1 maxLoginAttempts []))) = 5
   \<and> filter is_interaction (snd (login_phase already_signed_in station1 maxLoginAttempts [])) = []
   \<and> filter (goes_to pages_dashboard_url)
         (snd (loginToRFSActiv already_signed_in station1 [])) = []
   \<and> login_phase_ts already_signed_in station1 maxLoginAttempts []
       = (None, [Goto pages_login_url ''networkidle2'',
                 Query pages_login_username,
                 Log ''Login successful!''])"
proof -
  have "isloggedInPage (url already_signed_in h)"
    and "\<not> element already_signed_in h' pages_login_username" for h h'
    by (simp_all add: already_signed_in_def isloggedInPage_def str_includes_def)
  moreover have "filter (goes_to pages_dashboard_url)
         (snd (loginToRFSActiv already_signed_in station1 [])) = []"
    by (simp add: loginToRFSActiv_def loginToRFSActiv_with_def loginToRFSActiv_try_def
        already_signed_in_startup login_phase_def maxLoginAttempts_def
        retry_loop.simps [of _ 5] already_signed_in_login goes_to_def urls_differ)
  ultimately show ?thesis
    by (simp add: login_phase_def login_phase_ts_def maxLoginAttempts_def
        retry_loop.simps [of _ 5] already_signed_in_login already_signed_in_login_ts
        goes_to_def)
qed


section \<open>The URL test\<close>

lemma login_attempt_after_flow:
  assumes "run_step b (Await (Goto pages_login_url ''networkidle2'')) h = (True, h1)"
    and "query b pages_login_username h1 = (Some True, h2)"
    and "run_steps b (form_flow c) h2 = (True, h3)"
  shows "login_attempt b c k h =
           (if str_includes (url b h3) pages_dashboard_url
               \<or> str_includes (url b h3) pages_webapp_url
            then (True, h3 @ [Log ''Login successful!''])
            else (False, h3 @ [Log ''Login failed. Retrying...'']))"
  using assms by (simp add: login_attempt_def login_try_def)

lemma login_attempt_ts_after_flow:
  assumes "run_step b (Await (Goto pages_login_url ''networkidle2'')) h = (True, h1)"
    and "query b pages_login_username h1 = (Some True, h2)"
    and "run_steps b (form_flow_ts c) h2 = (True, h3)"
  shows "login_attempt_ts b c k h =
           (if isloggedInPage (url b h3)
            then (True, h3 @ [Log ''Login successful!''])
            else (False, h3 @ [Log ''Login failed. Retrying...'']))"
  using assms by (simp add: login_attempt_ts_def login_try_ts_def)

lemma back_to_login_flow:
  "run_steps back_to_login (form_flow c) h = (True, h @ form_flow_events c False)"
  by (simp add: form_flow_def form_flow_events_def query_def back_to_login_def selectors_differ)

lemma back_to_login_flow_ts:
  "run_steps back_to_login (form_flow_ts c) h = (True, h @ form_flow_ts_events c False)"
  by (simp add: form_flow_ts_def form_flow_ts_events_def query_def back_to_login_def
      selectors_differ)

lemma lands_elsewhere_flow:
  "run_steps lands_elsewhere (form_flow c) h = (True, h @ form_flow_events c True)"
  by (simp add: form_flow_def form_flow_events_def query_def lands_elsewhere_def)

lemma lands_elsewhere_flow_ts:
  "run_steps lands_elsewhere (form_flow_ts c) h = (True, h @ form_flow_ts_events c True)"
  by (simp add: form_flow_ts_def form_flow_ts_events_def query_def lands_elsewhere_def)

lemma lands_elsewhere_goto:
  "resolves lands_elsewhere h e"
  by (simp add: lands_elsewhere_def)

lemma lands_elsewhere_query:
  "query lands_elsewhere pages_login_username h = (Some True, h @ [Query pages_login_username])"
  by (simp add: query_def lands_elsewhere_def)

lemma lands_elsewhere_url:
  "\<not> str_includes (url lands_elsewhere h) pages_dashboard_url"
  "\<not> str_includes (url lands_elsewhere h) pages_webapp_url"
  by (simp_all add: lands_elsewhere_def str_includes_def pages_dashboard_url_def
      pages_webapp_url_def sublist_code(3))

lemma back_to_login_url:
  "str_includes (url back_to_login h) pages_webapp_url"
  by (simp add: back_to_login_def str_includes_def pages_login_url_def pages_webapp_url_def)

lemma back_to_login_goto:
  "resolves back_to_login h e"
  by (simp add: back_to_login_def)

lemma back_to_login_query:
  "query back_to_login pages_login_username h = (Some True, h @ [Query pages_login_username])"
  by (simp add: query_def back_to_login_def)

lemma login_url_has_webapp: "str_includes pages_login_url pages_webapp_url"
  by (simp add: str_includes_def pages_login_url_def pages_webapp_url_def)

lemma login_url_is_logged_in: "isloggedInPage pages_login_url"
  by (simp add: isloggedInPage_def login_url_has_webapp)

text \<open>
  C7: once the form flow has run through its wait for navigation (the navigation to the
  login URL resolved, the username field was found and every step of the flow resolved,
  reaching the history \<open>h3\<close>), the attempt succeeds exactly when the page URL at that
  point contains the dashboard URL or contains the application base URL. Either match
  is enough, and nothing of the page but its URL is read. The TypeScript port decides by
  \<open>isloggedInPage\<close>, which is the same test.
\<close>

theorem success_decided_by_url:
  "(run_step b (Await (Goto pages_login_url ''networkidle2'')) h = (True, h1)
      \<and> query b pages_login_username h1 = (Some True, h2)
      \<and> run_steps b (form_flow c) h2 = (True, h3)
    \<longrightarrow> fst (login_attempt b c k h)
          = (str_includes (url b h3) pages_dashboard_url
             \<or> str_includes (url b h3) pages_webapp_url))
   \<and> (run_step b (Await (Goto pages_login_url ''networkidle2'')) h = (True, h1)
      \<and> query b pages_login_username h1 = (Some True, h2)
      \<and> run_steps b (form_flow_ts c) h2 = (True, h4)
    \<longrightarrow> fst (login_attempt_ts b c k h)
          = (str_includes (url b h4) pages_dashboard_url
             \<or> str_includes (url b h4) pages_webapp_url))"
  using login_attempt_after_flow [of b h h1 h2 c h3 k]
    login_attempt_ts_after_flow [of b h h1 h2 c h4 k]
  by (auto simp: isloggedInPage_def)


theorem success_decided_by_url_witness:
  "run_step back_to_login (Await (Goto pages_login_url ''networkidle2'')) []
     = (True, [Goto pages_login_url ''networkidle2''])
   \<and> query back_to_login pages_login_username [Goto pages_login_url ''networkidle2'']
     = (Some True, [Goto pages_login_url ''networkidle2'', Query pages_login_username])
   \<and> fst (run_steps back_to_login (form_flow station1)
        [Goto pages_login_url ''networkidle2'', Query pages_login_username])
   \<and> fst (run_steps back_to_login (form_flow_ts station1)
        [Goto pages_login_url ''networkidle2'', Query pages_login_username])
   \<and> fst (login_attempt back_to_login station1 0 [])
   \<and> fst (login_attempt_ts back_to_login station1 0 [])
   \<and> fst (run_steps lands_elsewhere (form_flow station1)
        [Goto pages_login_url ''networkidle2'', Query pages_login_username])
   \<and> \<not> fst (login_attempt lands_elsewhere station1 0 [])
   \<and> \<not> fst (login_attempt_ts lands_elsewhere station1 0 [])"
  using success_decided_by_url [of back_to_login "[]" "[Goto pages_login_url ''networkidle2'']"
      "[Goto pages_login_url ''networkidle2'', Query pages_login_username]" station1
      "[Goto pages_login_url ''networkidle2'', Query pages_login_username]
         @ form_flow_events station1 False" 0
      "[Goto pages_login_url ''networkidle2'', Query pages_login_username]
         @ form_flow_ts_events station1 False"]
    success_decided_by_url [of lands_elsewhere "[]" "[Goto pages_login_url ''networkidle2'']"
      "[Goto pages_login_url ''networkidle2'', Query pages_login_username]" station1
      "[Goto pages_login_url ''networkidle2'', Query pages_login_username]
         @ form_flow_events station1 True" 0
      "[Goto pages_login_url ''networkidle2'', Query pages_login_username]
         @ form_flow_ts_events station1 True"]
  by (simp add: back_to_login_goto back_to_login_query back_to_login_flow
      back_to_login_flow_ts back_to_login_url lands_elsewhere_goto lands_elsewhere_query
      lands_elsewhere_flow lands_elsewhere_flow_ts lands_elsewhere_url)

text \<open>
  C8: the login URL itself passes the URL test, because it contains the application
  base URL. So an attempt whose form flow ran to the end and whose page is then back on
  the login URL is counted as a successful login, in \<open>login.js\<close> and in the
  TypeScript port.
\<close>

theorem login_url_counts_as_logged_in:
  "isloggedInPage pages_login_url
   \<and> str_includes pages_login_url pages_webapp_url
   \<and> (run_step b (Await (Goto pages_login_url ''networkidle2'')) h = (True, h1)
      \<and> query b pages_login_username h1 = (Some True, h2)
      \<and> run_steps b (form_flow c) h2 = (True, h3)
      \<and> url b h3 = pages_login_url
    \<longrightarrow> login_attempt b c k h = (True, h3 @ [Log ''Login successful!'']))
   \<and> (run_step b (Await (Goto pages_login_url ''networkidle2'')) h = (True, h1)
      \<and> query b pages_login_username h1 = (Some True, h2)
      \<and> run_steps b (form_flow_ts c) h2 = (True, h4)
      \<and> url b h4 = pages_login_url
    \<longrightarrow> login_attempt_ts b c k h = (True, h4 @ [Log ''Login successful!'']))"
  using login_attempt_after_flow [of b h h1 h2 c h3 k]
    login_attempt_ts_after_flow [of b h h1 h2 c h4 k]
  by (auto simp: login_url_is_logged_in login_url_has_webapp isloggedInPage_def)

theorem login_url_counts_as_logged_in_witness:
  "url back_to_login ([Goto pages_login_url ''networkidle2'', Query pages_login_username]
         @ form_flow_events station1 False) = pages_login_url
   \<and> login_attempt back_to_login station1 0 []
     = (True, [Goto pages_login_url ''networkidle2'', Query pages_login_username]
              @ form_flow_events station1 False @ [Log ''Login successful!''])
   \<and> login_attempt_ts back_to_login station1 0 []
     = (True, [Goto pages_login_url ''networkidle2'', Query pages_login_username]
              @ form_flow_ts_events station1 False @ [Log ''Login successful!''])"
  using login_url_counts_as_logged_in [of back_to_login "[]"
      "[Goto pages_login_url ''networkidle2'']"
      "[Goto pages_login_url ''networkidle2'', Query pages_login_username]" station1
      "[Goto pages_login_url ''networkidle2'', Query pages_login_username]
         @ form_flow_events station1 False" 0
      "[Goto pages_login_url ''networkidle2'', Query pages_login_username]
         @ form_flow_ts_events station1 False"]
  by (simp add: back_to_login_goto back_to_login_query back_to_login_flow
      back_to_login_flow_ts)
    (simp add: back_to_login_def)


section \<open>The trace of the form flow\<close>

lemma run_steps_append:
  "run_steps b (xs @ ys) h =
     (case run_steps b xs h of (False, h1) \<Rightarrow> (False, h1) | (True, h1) \<Rightarrow> run_steps b ys h1)"
  by (induction xs arbitrary: h) (auto split: prod.splits bool.splits)

lemma plain_steps_trace:
  "list_all plain ss \<Longrightarrow>
   \<exists>es. snd (run_steps b ss h) = h @ es \<and> prefix es (concat (map step_events ss))
      \<and> (fst (run_steps b ss h) \<longrightarrow> es = concat (map step_events ss))"
proof (induction ss arbitrary: h)
  case Nil
  show ?case by simp
next
  case (Cons s ss)
  from Cons.prems obtain e where e: "step_events s = [e]" "snd (run_step b s h) = h @ [e]"
    by (cases s) auto
  show ?case
  proof (cases "fst (run_step b s h)")
    case False
    with e show ?thesis
      by (intro exI [of _ "[e]"]) (auto split: prod.splits)
  next
    case True
    from Cons.IH [of "h @ [e]"] Cons.prems obtain es
      where es: "snd (run_steps b ss (h @ [e])) = (h @ [e]) @ es"
        "prefix es (concat (map step_events ss))"
        "fst (run_steps b ss (h @ [e])) \<longrightarrow> es = concat (map step_events ss)"
      by auto
    have "run_steps b (s # ss) h = run_steps b ss (h @ [e])"
      using True e(2) by (cases "run_step b s h") auto
    with es e(1) show ?thesis
      by (intro exI [of _ "e # es"]) simp
  qed
qed

lemma form_flow_split:
  "form_flow c = take 5 (form_flow c) @ ClickIfPresent pages_login_rememberMe # drop 6 (form_flow c)"
  "list_all plain (take 5 (form_flow c))"
  "list_all plain (drop 6 (form_flow c))"
  "form_flow_events c r =
     concat (map step_events (take 5 (form_flow c)))
     @ Query pages_login_rememberMe # (if r then [ElementClick pages_login_rememberMe] else [])
     @ concat (map step_events (drop 6 (form_flow c)))"
  by (simp_all add: form_flow_def form_flow_events_def)

lemma form_flow_pre_events:
  "concat (map step_events (take 5 (form_flow c))) = take 5 (form_flow_events c r)"
  by (simp add: form_flow_def form_flow_events_def)

lemma form_flow_trace:
  "\<exists>es. snd (run_steps b (form_flow c) h) = h @ es
      \<and> prefix es (form_flow_events c
           (element b (h @ take 5 (form_flow_events c False)) pages_login_rememberMe))
      \<and> (fst (run_steps b (form_flow c) h)
          \<longrightarrow> es = form_flow_events c
                 (element b (h @ take 5 (form_flow_events c False)) pages_login_rememberMe))"
proof -
  let ?pre = "take 5 (form_flow c)" and ?post = "drop 6 (form_flow c)"
  let ?rm = "pages_login_rememberMe"
  let ?E1 = "concat (map step_events ?pre)" and ?E3 = "concat (map step_events ?post)"
  let ?h1 = "h @ ?E1"
  let ?R = "element b ?h1 ?rm"
  have R: "element b (h @ take 5 (form_flow_events c False)) ?rm = ?R"
    by (simp only: form_flow_pre_events [of c False])
  have run: "run_steps b (form_flow c) h =
     (case run_steps b ?pre h of (False, h1) \<Rightarrow> (False, h1)
      | (True, h1) \<Rightarrow> run_steps b (ClickIfPresent ?rm # ?post) h1)"
    using run_steps_append [of b ?pre "ClickIfPresent ?rm # ?post" h] form_flow_split(1) [of c]
    by simp
  from plain_steps_trace [OF form_flow_split(2), of b c h] obtain es1
    where es1: "snd (run_steps b ?pre h) = h @ es1" "prefix es1 ?E1"
      "fst (run_steps b ?pre h) \<longrightarrow> es1 = ?E1" by blast
  have "\<exists>es. snd (run_steps b (form_flow c) h) = h @ es
      \<and> prefix es (form_flow_events c ?R)
      \<and> (fst (run_steps b (form_flow c) h) \<longrightarrow> es = form_flow_events c ?R)"
  proof (cases "fst (run_steps b ?pre h)")
    case False
    then have "snd (run_steps b (form_flow c) h) = h @ es1"
      "\<not> fst (run_steps b (form_flow c) h)"
      using run es1(1) by (auto split: prod.splits bool.splits)
    moreover have "prefix es1 (form_flow_events c ?R)"
      using es1(2) by (subst form_flow_split(4)) (rule prefix_prefix)
    ultimately show ?thesis by blast
  next
    case True
    from True es1 have pre: "run_steps b ?pre h = (True, ?h1)"
      by (cases "run_steps b ?pre h") auto
    from plain_steps_trace [OF form_flow_split(3), of b c] obtain post_es
      where post: "\<And>h'. snd (run_steps b ?post h') = h' @ post_es h'
        \<and> prefix (post_es h') ?E3
        \<and> (fst (run_steps b ?post h') \<longrightarrow> post_es h' = ?E3)"
      by metis
    consider (rejected) "\<not> resolves b ?h1 (Query ?rm)"
      | (absent) "resolves b ?h1 (Query ?rm)" "\<not> ?R"
      | (click_rejected) "resolves b ?h1 (Query ?rm)" "?R"
          "\<not> resolves b (?h1 @ [Query ?rm]) (ElementClick ?rm)"
      | (clicked) "resolves b ?h1 (Query ?rm)" "?R"
          "resolves b (?h1 @ [Query ?rm]) (ElementClick ?rm)"
      by blast
    then show ?thesis
    proof cases
      case rejected
      then have "run_steps b (form_flow c) h = (False, h @ (?E1 @ [Query ?rm]))"
        using run pre by (simp add: query_def)
      moreover have "prefix (?E1 @ [Query ?rm]) (form_flow_events c ?R)"
        by (subst form_flow_split(4)) simp
      ultimately show ?thesis by (intro exI [of _ "?E1 @ [Query ?rm]"]) simp
    next
      case absent
      let ?h2 = "?h1 @ [Query ?rm]"
      from absent have "run_steps b (form_flow c) h = run_steps b ?post ?h2"
        using run pre by (simp add: query_def)
      with post [of ?h2] absent(2) show ?thesis
        by (intro exI [of _ "?E1 @ Query ?rm # post_es ?h2"])
          (simp add: form_flow_split(4) [of c False])
    next
      case click_rejected
      then have "run_steps b (form_flow c) h
                  = (False, h @ (?E1 @ [Query ?rm, ElementClick ?rm]))"
        using run pre by (simp add: query_def)
      moreover have "prefix (?E1 @ [Query ?rm, ElementClick ?rm]) (form_flow_events c ?R)"
        using click_rejected(2) by (subst form_flow_split(4)) simp
      ultimately show ?thesis
        by (intro exI [of _ "?E1 @ [Query ?rm, ElementClick ?rm]"]) simp
    next
      case clicked
      let ?h2 = "?h1 @ [Query ?rm, ElementClick ?rm]"
      from clicked have "run_steps b (form_flow c) h = run_steps b ?post ?h2"
        using run pre by (simp add: query_def)
      with post [of ?h2] clicked(2) show ?thesis
        by (intro exI [of _ "?E1 @ Query ?rm # ElementClick ?rm # post_es ?h2"])
          (simp add: form_flow_split(4) [of c True])
    qed
  qed
  then show ?thesis by (simp only: R)
qed

lemma form_flow_interactions:
  "filter is_interaction (form_flow_events c r) = spec_login_order c r"
  by (simp add: form_flow_events_def spec_login_order_def)

text \<open>A run of steps ends early only at a call that was rejected.\<close>

lemma run_step_rejected:
  "\<not> fst (run_step b s h) \<Longrightarrow>
     \<exists>es e. snd (run_step b s h) = h @ es @ [e] \<and> \<not> resolves b (h @ es) e"
proof (cases s)
  case (Await e)
  assume "\<not> fst (run_step b s h)"
  with Await show ?thesis by (intro exI [of _ "[]"] exI [of _ e]) simp
next
  case (Print m)
  assume "\<not> fst (run_step b s h)"
  with Print show ?thesis by simp
next
  case (ClickIfPresent sel)
  assume n: "\<not> fst (run_step b s h)"
  show ?thesis
  proof (cases "resolves b h (Query sel)")
    case False
    with ClickIfPresent show ?thesis
      by (intro exI [of _ "[]"] exI [of _ "Query sel"]) (simp add: query_def)
  next
    case True
    with n ClickIfPresent have "element b h sel"
      "\<not> resolves b (h @ [Query sel]) (ElementClick sel)"
      by (auto simp: query_def split: if_splits bool.splits)
    with True ClickIfPresent show ?thesis
      by (intro exI [of _ "[Query sel]"] exI [of _ "ElementClick sel"]) (simp add: query_def)
  qed
qed

lemma run_steps_rejected:
  "\<not> fst (run_steps b ss h) \<Longrightarrow>
     \<exists>es e. snd (run_steps b ss h) = h @ es @ [e] \<and> \<not> resolves b (h @ es) e"
proof (induction ss arbitrary: h)
  case Nil
  then show ?case by simp
next
  case (Cons s ss)
  obtain ok h1 where r: "run_step b s h = (ok, h1)" by (cases "run_step b s h")
  show ?case
  proof (cases ok)
    case False
    with r run_step_rejected [of b s h] show ?thesis by simp
  next
    case True
    from run_step_events [of b s h] r obtain es1 where h1: "h1 = h @ es1" by auto
    from True r Cons.prems have "\<not> fst (run_steps b ss h1)" by simp
    from Cons.IH [OF this] obtain es e
      where "snd (run_steps b ss h1) = h1 @ es @ [e]" "\<not> resolves b (h1 @ es) e" by blast
    with True r h1 show ?thesis
      by (intro exI [of _ "es1 @ es"] exI [of _ e]) simp
  qed
qed

lemma login_attempt_adds_log:
  "\<exists>ms. snd (login_attempt b c k h) = snd (login_try b c h) @ map Log ms"
proof -
  obtain r h1 where t: "login_try b c h = (r, h1)" by (cases "login_try b c h")
  show ?thesis
  proof (cases r)
    case Break
    with t show ?thesis by (intro exI [of _ "[]"]) (simp add: login_attempt_def)
  next
    case Completed
    with t show ?thesis by (intro exI [of _ "[]"]) (simp add: login_attempt_def)
  next
    case Thrown
    with t show ?thesis
      by (intro exI [of _ "[''Login attempt '' @ show_nat (k + 1) @ '' failed. Retrying in ''
                             @ show_nat (retryDelay div 1000) @ '' seconds...'']"])
        (simp add: login_attempt_def)
  qed
qed

lemma filter_interaction_logs: "filter is_interaction (map Log ms) = []"
  by (induction ms) auto

text \<open>The trace of the \<open>try\<close> block, case by case.\<close>

lemma login_try_cases:
  fixes b c h
  defines "g \<equiv> Goto pages_login_url ''networkidle2''"
    and "q \<equiv> Query pages_login_username"
  defines "R \<equiv> element b (at_remember_me c h) pages_login_rememberMe"
  shows "(\<not> resolves b h g \<and> login_try b c h = (Thrown, h @ [g]))
    \<or> (resolves b h g \<and> \<not> resolves b (h @ [g]) q \<and> login_try b c h = (Thrown, h @ [g, q]))
    \<or> (resolves b h g \<and> resolves b (h @ [g]) q \<and> \<not> element b (h @ [g]) pages_login_username
        \<and> login_try b c h
            = (Completed, h @ [g, q, Log ''Login form not detected. Retrying...'']))
    \<or> (resolves b h g \<and> resolves b (h @ [g]) q \<and> element b (h @ [g]) pages_login_username
        \<and> (\<exists>es e. login_try b c h = (Thrown, h @ g # q # es @ [e])
               \<and> prefix (es @ [e]) (form_flow_events c R)
               \<and> \<not> resolves b (h @ g # q # es) e))
    \<or> (resolves b h g \<and> resolves b (h @ [g]) q \<and> element b (h @ [g]) pages_login_username
        \<and> fst (login_try b c h) \<noteq> Thrown
        \<and> (\<exists>m. snd (login_try b c h) = h @ g # q # form_flow_events c R @ [Log m]))"
proof -
  let ?h2 = "h @ [g, q]"
  have R: "R = element b (?h2 @ take 5 (form_flow_events c False)) pages_login_rememberMe"
    by (simp add: R_def g_def q_def at_remember_me_def form_flow_events_def)
  from form_flow_trace [of b c ?h2] obtain es
    where es: "snd (run_steps b (form_flow c) ?h2) = ?h2 @ es"
      "prefix es (form_flow_events c R)"
      "fst (run_steps b (form_flow c) ?h2) \<longrightarrow> es = form_flow_events c R"
    unfolding R by blast
  obtain ok h3 where r: "run_steps b (form_flow c) ?h2 = (ok, h3)"
    by (cases "run_steps b (form_flow c) ?h2")
  with es have h3: "h3 = ?h2 @ es" by simp
  consider (goto_rejected) "\<not> resolves b h g"
    | (query_rejected) "resolves b h g" "\<not> resolves b (h @ [g]) q"
    | (no_form) "resolves b h g" "resolves b (h @ [g]) q"
        "\<not> element b (h @ [g]) pages_login_username"
    | (form) "resolves b h g" "resolves b (h @ [g]) q"
        "element b (h @ [g]) pages_login_username"
    by blast
  then show ?thesis
  proof cases
    case goto_rejected
    then show ?thesis by (simp add: login_try_def g_def)
  next
    case query_rejected
    then show ?thesis by (simp add: login_try_def query_def g_def q_def)
  next
    case no_form
    then show ?thesis by (simp add: login_try_def query_def g_def q_def)
  next
    case form
    show ?thesis
    proof (cases ok)
      case False
      with r have "\<not> fst (run_steps b (form_flow c) ?h2)" by simp
      from run_steps_rejected [OF this] r h3 obtain es' e
        where e: "es = es' @ [e]" "\<not> resolves b (?h2 @ es') e" by auto
      from False form r h3 have "login_try b c h = (Thrown, ?h2 @ es)"
        by (simp add: login_try_def query_def g_def q_def)
      with e es(2) form have "\<exists>es e. login_try b c h = (Thrown, h @ g # q # es @ [e])
               \<and> prefix (es @ [e]) (form_flow_events c R)
               \<and> \<not> resolves b (h @ g # q # es) e"
        by (intro exI [of _ es'] exI [of _ e]) simp
      with form show ?thesis by (simp only: simp_thms)
    next
      case True
      with es(3) r have full: "es = form_flow_events c R" by simp
      have "fst (login_try b c h) \<noteq> Thrown
          \<and> (\<exists>m. snd (login_try b c h) = h @ g # q # es @ [Log m])"
        using True form r h3 by (simp add: login_try_def query_def g_def q_def)
      with form full show ?thesis by (simp only: simp_thms)
    qed
  qed
qed

section \<open>The order of the form interactions\<close>

text \<open>
  C6: the interactions of a login attempt (waiting for a selector, typing, clicking,
  waiting for the navigation) happen in the order
  wait(username), type(username), optionally click(remember-me), wait(Next), click(Next),
  wait(password), type(password), wait(Verify), click(Verify), wait-for-navigation,
  where the click is made exactly when \<open>page.$\<close> finds the remember-me control at
  line 167. Whatever the browser answers, the interactions of an attempt are an initial
  part of that sequence. The \<open>try\<close> block ends by an exception only at a call that was
  rejected. So when the username field is present and no call is rejected, the attempt
  performs the whole sequence: its run is the navigation to the login URL, the query
  for the username field, the events of \<open>form_flow_events\<close> and one log line. In
  \<open>login.js\<close> that run also holds the \<open>page.focus\<close> call on the username field, the
  \<open>page.$\<close> query for the remember-me control and the log lines.
\<close>

theorem form_interactions_in_order:
  "prefix (filter is_interaction (drop (length h) (snd (login_attempt b c k h))))
      (spec_login_order c (element b (at_remember_me c h) pages_login_rememberMe))
   \<and> (fst (login_try b c h) = Thrown \<longrightarrow>
        (\<exists>es e. snd (login_try b c h) = h @ es @ [e] \<and> \<not> resolves b (h @ es) e))
   \<and> (fst (login_try b c h) \<noteq> Thrown
        \<and> element b (h @ [Goto pages_login_url ''networkidle2'']) pages_login_username \<longrightarrow>
        (\<exists>m. snd (login_attempt b c k h)
               = h @ Goto pages_login_url ''networkidle2'' # Query pages_login_username
                   # form_flow_events c
                       (element b (at_remember_me c h) pages_login_rememberMe)
                   @ [Log m])
        \<and> filter is_interaction (drop (length h) (snd (login_attempt b c k h)))
            = spec_login_order c (element b (at_remember_me c h) pages_login_rememberMe))
   \<and> (\<exists>ms. snd (login_attempt b c k h) = snd (login_try b c h) @ map Log ms)"
proof -
  let ?g = "Goto pages_login_url ''networkidle2''" and ?q = "Query pages_login_username"
  let ?R = "element b (at_remember_me c h) pages_login_rememberMe"
  from login_attempt_adds_log [of b c k h] obtain ms
    where att: "snd (login_attempt b c k h) = snd (login_try b c h) @ map Log ms" ..
  note cases = login_try_cases [of b h c]
  have one: "prefix (filter is_interaction (drop (length h) (snd (login_attempt b c k h))))
      (spec_login_order c ?R)"
    using cases
  proof (elim disjE conjE exE)
    fix es e
    assume t: "login_try b c h = (Thrown, h @ ?g # ?q # es @ [e])"
      and p: "prefix (es @ [e]) (form_flow_events c ?R)"
    from filter_mono_prefix [OF p, of is_interaction]
    have "prefix (filter is_interaction (es @ [e])) (spec_login_order c ?R)"
      by (simp only: form_flow_interactions)
    moreover have "filter is_interaction (drop (length h) (snd (login_attempt b c k h)))
        = filter is_interaction (es @ [e])"
      using t att by (simp add: filter_interaction_logs)
    ultimately show ?thesis by (simp only:)
  next
    fix m
    assume "snd (login_try b c h) = h @ ?g # ?q # form_flow_events c ?R @ [Log m]"
    with att show ?thesis
      by (simp add: filter_interaction_logs form_flow_interactions)
  qed (simp_all add: att filter_interaction_logs)
  have two: "fst (login_try b c h) = Thrown \<longrightarrow>
        (\<exists>es e. snd (login_try b c h) = h @ es @ [e] \<and> \<not> resolves b (h @ es) e)"
    using cases
  proof (elim disjE conjE exE)
    assume "\<not> resolves b h ?g" "login_try b c h = (Thrown, h @ [?g])"
    then show ?thesis by (intro impI exI [of _ "[]"] exI [of _ ?g]) simp
  next
    assume "\<not> resolves b (h @ [?g]) ?q" "login_try b c h = (Thrown, h @ [?g, ?q])"
    then show ?thesis by (intro impI exI [of _ "[?g]"] exI [of _ ?q]) simp
  next
    fix es e
    assume "login_try b c h = (Thrown, h @ ?g # ?q # es @ [e])"
      "\<not> resolves b (h @ ?g # ?q # es) e"
    then show ?thesis by (intro impI exI [of _ "?g # ?q # es"] exI [of _ e]) simp
  qed simp_all
  have three: "fst (login_try b c h) \<noteq> Thrown
        \<and> element b (h @ [?g]) pages_login_username \<longrightarrow>
        (\<exists>m. snd (login_attempt b c k h)
               = h @ ?g # ?q # form_flow_events c ?R @ [Log m])
        \<and> filter is_interaction (drop (length h) (snd (login_attempt b c k h)))
            = spec_login_order c ?R"
    using cases
  proof (elim disjE conjE exE)
    fix m
    assume nt: "fst (login_try b c h) \<noteq> Thrown"
      and t: "snd (login_try b c h) = h @ ?g # ?q # form_flow_events c ?R @ [Log m]"
    obtain r h1 where lt: "login_try b c h = (r, h1)" by (cases "login_try b c h")
    with nt have "snd (login_attempt b c k h) = snd (login_try b c h)"
      by (cases r) (simp_all add: login_attempt_def)
    with t show ?thesis
      by (simp add: form_flow_interactions)
  qed simp_all
  from one two three att show ?thesis by blast
qed


lemma back_to_login_username: "element back_to_login h pages_login_username"
  by (simp add: back_to_login_def)

lemma lands_elsewhere_username: "element lands_elsewhere h sel"
  by (simp add: lands_elsewhere_def)

lemma back_to_login_try:
  "login_try back_to_login c h
     = (Break, h @ Goto pages_login_url ''networkidle2'' # Query pages_login_username
               # form_flow_events c False @ [Log ''Login successful!''])"
  by (simp add: login_try_def query_def back_to_login_goto back_to_login_flow
      back_to_login_url back_to_login_username)

lemma lands_elsewhere_try:
  "login_try lands_elsewhere c h
     = (Completed, h @ Goto pages_login_url ''networkidle2'' # Query pages_login_username
               # form_flow_events c True @ [Log ''Login failed. Retrying...''])"
  by (simp add: login_try_def query_def lands_elsewhere_goto lands_elsewhere_flow
      lands_elsewhere_url lands_elsewhere_username)

lemma next_never_visible_try:
  "fst (login_try next_never_visible c h) = Thrown"
  by (simp add: login_try_def form_flow_def query_def next_never_visible_def selectors_differ)

theorem form_interactions_in_order_witness:
  "fst (login_try next_never_visible station1 []) = Thrown
   \<and> (\<exists>es e. snd (login_try next_never_visible station1 []) = es @ [e]
          \<and> \<not> resolves next_never_visible es e)
   \<and> fst (login_try back_to_login station1 []) \<noteq> Thrown
   \<and> element back_to_login [Goto pages_login_url ''networkidle2''] pages_login_username
   \<and> \<not> element back_to_login (at_remember_me station1 []) pages_login_rememberMe
   \<and> filter is_interaction (snd (login_attempt back_to_login station1 0 []))
       = spec_login_order station1 False
   \<and> fst (login_try lands_elsewhere station1 []) \<noteq> Thrown
   \<and> element lands_elsewhere [Goto pages_login_url ''networkidle2''] pages_login_username
   \<and> element lands_elsewhere (at_remember_me station1 []) pages_login_rememberMe
   \<and> filter is_interaction (snd (login_attempt lands_elsewhere station1 0 []))
       = spec_login_order station1 True"
proof -
  have b: "element back_to_login [Goto pages_login_url ''networkidle2''] pages_login_username"
    "\<not> element back_to_login (at_remember_me station1 []) pages_login_rememberMe"
    by (simp_all add: back_to_login_def selectors_differ)
  have l: "element lands_elsewhere [Goto pages_login_url ''networkidle2''] pages_login_username"
    "element lands_elsewhere (at_remember_me station1 []) pages_login_rememberMe"
    by (simp_all add: lands_elsewhere_def)
  from form_interactions_in_order [of "[]" next_never_visible station1 0]
    form_interactions_in_order [of "[]" back_to_login station1 0]
    form_interactions_in_order [of "[]" lands_elsewhere station1 0] b l
  show ?thesis
    by (simp add: next_never_visible_try back_to_login_try lands_elsewhere_try)
qed

section \<open>The remember-me control\<close>



section \<open>The preferences file\<close>

lemma agree_except_refl: "agree_except ks f f"
  by (simp add: agree_except_def)

lemma patch_empty: "map_sum id JSON_stringify (patch (JObj [])) = Inr patched_empty"
  by (simp add: patched_empty_def zero_def)






















end
